theory Spec2Isabelle
  imports Main
begin

section \<open>The grid and its accessors\<close>

text \<open>
  A board is a Python list of row lists holding integers; \<open>0\<close> is an empty cell.
  The request layer builds every board from JSON and copies it row by row, so no two
  rows share storage and a board is modelled as a value. Every index the solver uses
  comes from \<open>range\<close>, hence is a natural number; a read or a write outside a list
  raises \<open>IndexError\<close>, which the model returns as a value.
\<close>

type_synonym board = "int list list"

datatype error = IndexError | BackendError | EvalError | DecodeError

definition get_cell :: "board \<Rightarrow> nat \<Rightarrow> nat \<Rightarrow> error + int" where
  "get_cell b i j =
     (if i < length b then
        (if j < length (b ! i) then Inr (b ! i ! j) else Inl IndexError)
      else Inl IndexError)"

definition set_cell :: "board \<Rightarrow> nat \<Rightarrow> nat \<Rightarrow> int \<Rightarrow> error + board" where
  "set_cell b i j v =
     (if i < length b then
        (if j < length (b ! i) then Inr (b[i := (b ! i)[j := v]]) else Inl IndexError)
      else Inl IndexError)"

section \<open>is_valid\<close>

text \<open>
  \<open>scan rd num xs\<close> is one of the three search loops of \<open>is_valid\<close>: it reads the
  positions \<open>xs\<close> in order and answers \<open>True\<close> as soon as one of them holds \<open>num\<close>.
\<close>

fun scan :: "('p \<Rightarrow> error + int) \<Rightarrow> int \<Rightarrow> 'p list \<Rightarrow> error + bool" where
  "scan rd num [] = Inr False"
| "scan rd num (x # xs) =
     (case rd x of
        Inl e \<Rightarrow> Inl e
      | Inr v \<Rightarrow> if v = num then Inr True else scan rd num xs)"

definition box_offsets :: "(nat \<times> nat) list" where
  "box_offsets = concat (map (\<lambda>i. map (\<lambda>j. (i, j)) [0..<3]) [0..<3])"

definition is_valid :: "board \<Rightarrow> nat \<Rightarrow> nat \<Rightarrow> int \<Rightarrow> error + bool" where
  "is_valid b row col num =
     (case scan (\<lambda>x. get_cell b row x) num [0..<9] of
        Inl e \<Rightarrow> Inl e
      | Inr True \<Rightarrow> Inr False
      | Inr False \<Rightarrow>
          (case scan (\<lambda>x. get_cell b x col) num [0..<9] of
             Inl e \<Rightarrow> Inl e
           | Inr True \<Rightarrow> Inr False
           | Inr False \<Rightarrow>
               (let start_row = 3 * (row div 3); start_col = 3 * (col div 3) in
                case scan (\<lambda>(i, j). get_cell b (i + start_row) (j + start_col)) num box_offsets of
                  Inl e \<Rightarrow> Inl e
                | Inr True \<Rightarrow> Inr False
                | Inr False \<Rightarrow> Inr True)))"

section \<open>find_empty\<close>

fun find_empty_in :: "board \<Rightarrow> (nat \<times> nat) list \<Rightarrow> error + (nat \<times> nat) option" where
  "find_empty_in b [] = Inr None"
| "find_empty_in b ((i, j) # ps) =
     (case get_cell b i j of
        Inl e \<Rightarrow> Inl e
      | Inr v \<Rightarrow> if v = 0 then Inr (Some (i, j)) else find_empty_in b ps)"

definition all_cells :: "(nat \<times> nat) list" where
  "all_cells = concat (map (\<lambda>i. map (\<lambda>j. (i, j)) [0..<9]) [0..<9])"

definition find_empty :: "board \<Rightarrow> error + (nat \<times> nat) option" where
  "find_empty b = find_empty_in b all_cells"

section \<open>solve_sudoku\<close>

text \<open>
  The outcome of a call is an exception or the returned boolean together with the board
  as the call leaves it. The recursion depth is bounded by a fuel argument: \<open>None\<close>
  means that the depth bound was reached. \<open>try_nums\<close> is the \<open>for num in range(1, 10)\<close>
  loop, with \<open>rec\<close> the recursive call.
\<close>

type_synonym outcome = "error + bool \<times> board"

fun try_nums :: "(board \<Rightarrow> outcome option) \<Rightarrow> board \<Rightarrow> nat \<Rightarrow> nat \<Rightarrow> int list \<Rightarrow> outcome option" where
  "try_nums rec b row col [] = Some (Inr (False, b))"
| "try_nums rec b row col (num # nums) =
     (case is_valid b row col num of
        Inl e \<Rightarrow> Some (Inl e)
      | Inr False \<Rightarrow> try_nums rec b row col nums
      | Inr True \<Rightarrow>
          (case set_cell b row col num of
             Inl e \<Rightarrow> Some (Inl e)
           | Inr b1 \<Rightarrow>
               (case rec b1 of
                  None \<Rightarrow> None
                | Some (Inl e) \<Rightarrow> Some (Inl e)
                | Some (Inr (True, b2)) \<Rightarrow> Some (Inr (True, b2))
                | Some (Inr (False, b2)) \<Rightarrow>
                    (case set_cell b2 row col 0 of
                       Inl e \<Rightarrow> Some (Inl e)
                     | Inr b3 \<Rightarrow> try_nums rec b3 row col nums))))"

fun solve_sudoku :: "nat \<Rightarrow> board \<Rightarrow> outcome option" where
  "solve_sudoku 0 b = None"
| "solve_sudoku (Suc fuel) b =
     (case find_empty b of
        Inl e \<Rightarrow> Some (Inl e)
      | Inr None \<Rightarrow> Some (Inr (True, b))
      | Inr (Some (row, col)) \<Rightarrow> try_nums (solve_sudoku fuel) b row col [1..9])"

definition mock_extract_sudoku :: board where
  "mock_extract_sudoku =
    [[5, 3, 0, 0, 7, 0, 0, 0, 0],
     [6, 0, 0, 1, 9, 5, 0, 0, 0],
     [0, 9, 8, 0, 0, 0, 0, 6, 0],
     [8, 0, 0, 0, 6, 0, 0, 0, 3],
     [4, 0, 0, 8, 0, 3, 0, 0, 1],
     [7, 0, 0, 0, 2, 0, 0, 0, 6],
     [0, 6, 0, 0, 0, 0, 2, 8, 0],
     [0, 0, 0, 4, 1, 9, 0, 0, 5],
     [0, 0, 0, 0, 8, 0, 0, 7, 9]]"

section \<open>Well-formed boards and the accessors\<close>


definition wf9 :: "board \<Rightarrow> bool" where
  "wf9 b \<longleftrightarrow> length b = 9 \<and> list_all (\<lambda>row. length row = 9) b"

lemma wf9_row: "wf9 b \<Longrightarrow> i < 9 \<Longrightarrow> length (b ! i) = 9"
  by (simp add: wf9_def list_all_length)

lemma wf9_get: "wf9 b \<Longrightarrow> i < 9 \<Longrightarrow> j < 9 \<Longrightarrow> get_cell b i j = Inr (b ! i ! j)"
  by (simp add: get_cell_def wf9_def list_all_length)

lemma get_cell_InrD: "get_cell b i j = Inr v \<Longrightarrow> i < length b \<and> j < length (b ! i) \<and> b ! i ! j = v"
  by (auto simp: get_cell_def split: if_splits)

lemma set_cell_get:
  "set_cell b r c v = Inr b' \<Longrightarrow> get_cell b' i j = (if i = r \<and> j = c then Inr v else get_cell b i j)"
  by (auto simp: set_cell_def get_cell_def nth_list_update split: if_splits)

lemma set_cell_defined: "get_cell b r c = Inr x \<Longrightarrow> \<exists>b'. set_cell b r c v = Inr b'"
  by (auto simp: set_cell_def get_cell_def split: if_splits)

lemma set_cell_wf9: "wf9 b \<Longrightarrow> set_cell b r c v = Inr b' \<Longrightarrow> wf9 b'"
  by (auto simp: set_cell_def wf9_def list_all_length nth_list_update split: if_splits)

lemma set_cell_restore:
  "get_cell b r c = Inr x \<Longrightarrow> set_cell b r c v = Inr b1 \<Longrightarrow> set_cell b1 r c x = Inr b"
  by (auto simp: set_cell_def get_cell_def split: if_splits)

lemma set_cell_nth:
  "set_cell b r c v = Inr b' \<Longrightarrow> i < length b \<Longrightarrow> j < length (b ! i) \<Longrightarrow>
   b' ! i ! j = (if i = r \<and> j = c then v else b ! i ! j)"
  by (auto simp: set_cell_def nth_list_update split: if_splits)

lemma board_eqI:
  assumes "wf9 a" "wf9 b" "\<And>i j. i < 9 \<Longrightarrow> j < 9 \<Longrightarrow> a ! i ! j = b ! i ! j"
  shows "a = b"
proof (rule nth_equalityI)
  show "length a = length b" using assms(1,2) by (simp add: wf9_def)
next
  fix i assume "i < length a"
  then have i: "i < 9" using assms(1) by (simp add: wf9_def)
  show "a ! i = b ! i"
  proof (rule nth_equalityI)
    show "length (a ! i) = length (b ! i)" using assms(1,2) i by (simp add: wf9_row)
  next
    fix j assume "j < length (a ! i)"
    then have "j < 9" using assms(1) i by (simp add: wf9_row)
    then show "a ! i ! j = b ! i ! j" using i assms(3) by simp
  qed
qed

lemma scan_read:
  assumes "\<And>x. x \<in> set xs \<Longrightarrow> rd x = Inr (f x)"
  shows "scan rd num xs = Inr (\<exists>x\<in>set xs. f x = num)"
  using assms by (induction xs) auto

lemma set_box_offsets: "set box_offsets = {(i, j). i < 3 \<and> j < 3}"
  by (auto simp: box_offsets_def)

lemma set_all_cells: "set all_cells = {(i, j). i < 9 \<and> j < 9}"
  by (auto simp: all_cells_def)

lemma length_all_cells: "length all_cells = 81"
  by (simp add: all_cells_def length_concat comp_def sum_list_triv)

definition in_row :: "board \<Rightarrow> nat \<Rightarrow> int \<Rightarrow> bool" where
  "in_row b r v \<longleftrightarrow> (\<exists>x\<in>set [0..<9]. b ! r ! x = v)"

definition in_col :: "board \<Rightarrow> nat \<Rightarrow> int \<Rightarrow> bool" where
  "in_col b c v \<longleftrightarrow> (\<exists>x\<in>set [0..<9]. b ! x ! c = v)"

definition in_box :: "board \<Rightarrow> nat \<Rightarrow> nat \<Rightarrow> int \<Rightarrow> bool" where
  "in_box b r c v \<longleftrightarrow>
     (\<exists>i\<in>set [0..<3]. \<exists>j\<in>set [0..<3]. b ! (i + 3 * (r div 3)) ! (j + 3 * (c div 3)) = v)"

lemma is_valid_wf9:
  assumes "wf9 b" "r < 9" "c < 9"
  shows "is_valid b r c v = Inr (\<not> (in_row b r v \<or> in_col b c v \<or> in_box b r c v))"
proof -
  have row: "scan (\<lambda>x. get_cell b r x) v [0..<9] = Inr (\<exists>x\<in>set [0..<9]. b ! r ! x = v)"
    by (rule scan_read) (simp add: wf9_get assms)
  have col: "scan (\<lambda>x. get_cell b x c) v [0..<9] = Inr (\<exists>x\<in>set [0..<9]. b ! x ! c = v)"
    by (rule scan_read) (simp add: wf9_get assms)
  have r3: "3 * (r div 3) \<le> 6" and c3: "3 * (c div 3) \<le> 6" using assms by auto
  have box: "scan (\<lambda>(i, j). get_cell b (i + 3 * (r div 3)) (j + 3 * (c div 3))) v box_offsets
      = Inr (\<exists>p\<in>set box_offsets. (case p of (i, j) \<Rightarrow> b ! (i + 3 * (r div 3)) ! (j + 3 * (c div 3))) = v)"
    apply (rule scan_read)
    using r3 c3 by (auto simp: set_box_offsets wf9_get assms)
  have boxeq: "(\<exists>p\<in>set box_offsets. (case p of (i, j) \<Rightarrow> b ! (i + 3 * (r div 3)) ! (j + 3 * (c div 3))) = v)
     = in_box b r c v"
    unfolding set_box_offsets in_box_def by (simp add: Bex_def)
  show ?thesis
    unfolding is_valid_def row col
    by (simp add: Let_def box boxeq in_row_def in_col_def split: bool.splits)
qed


section \<open>Basic facts about the solver\<close>

lemma find_empty_in_first:
  "find_empty_in b ps = Inr (Some p) \<Longrightarrow>
     \<exists>ps1 ps2. ps = ps1 @ p # ps2 \<and> get_cell b (fst p) (snd p) = Inr 0 \<and>
       (\<forall>q\<in>set ps1. \<exists>v. get_cell b (fst q) (snd q) = Inr v \<and> v \<noteq> 0)"
proof (induction b ps rule: find_empty_in.induct)
  case (1 b)
  then show ?case by simp
next
  case (2 b i j ps)
  show ?case
  proof (cases "get_cell b i j")
    case (Inl e)
    with 2 show ?thesis by simp
  next
    case (Inr v)
    show ?thesis
    proof (cases "v = 0")
      case True
      with 2 Inr have "p = (i, j)" by simp
      with Inr True show ?thesis by fastforce
    next
      case False
      with 2 Inr have "find_empty_in b ps = Inr (Some p)" by simp
      with 2 Inr False obtain ps1 ps2 where
        "ps = ps1 @ p # ps2" "get_cell b (fst p) (snd p) = Inr 0"
        "\<forall>q\<in>set ps1. \<exists>v. get_cell b (fst q) (snd q) = Inr v \<and> v \<noteq> 0"
        by auto
      with Inr False show ?thesis
        by (intro exI[of _ "(i, j) # ps1"] exI[of _ ps2]) auto
    qed
  qed
qed

lemma find_empty_in_None:
  "find_empty_in b ps = Inr None \<Longrightarrow>
     \<forall>q\<in>set ps. \<exists>v. get_cell b (fst q) (snd q) = Inr v \<and> v \<noteq> 0"
  by (induction b ps rule: find_empty_in.induct) (auto split: sum.splits if_splits)

lemma find_empty_in_wf9:
  "wf9 b \<Longrightarrow> \<forall>q\<in>set ps. fst q < 9 \<and> snd q < 9 \<Longrightarrow> \<exists>x. find_empty_in b ps = Inr x"
proof (induction b ps rule: find_empty_in.induct)
  case (1 b)
  then show ?case by simp
next
  case (2 b i j ps)
  then have g: "get_cell b i j = Inr (b ! i ! j)" by (simp add: wf9_get)
  show ?case
  proof (cases "b ! i ! j = 0")
    case True
    with g show ?thesis by simp
  next
    case False
    with 2 g show ?thesis by simp
  qed
qed

lemma find_empty_SomeD:
  assumes "find_empty b = Inr (Some (r, c))"
  shows "r < 9 \<and> c < 9 \<and> get_cell b r c = Inr 0"
proof -
  from assms have "find_empty_in b all_cells = Inr (Some (r, c))" by (simp add: find_empty_def)
  from find_empty_in_first[OF this] obtain ps1 ps2 where
    ps: "all_cells = ps1 @ (r, c) # ps2" and z: "get_cell b r c = Inr 0" by auto
  have "(r, c) \<in> set all_cells" unfolding ps by simp
  then have "r < 9 \<and> c < 9" unfolding set_all_cells by simp
  with z show ?thesis by simp
qed

definition empty_count :: "board \<Rightarrow> nat" where
  "empty_count b = length (filter (\<lambda>(i, j). get_cell b i j = Inr 0) all_cells)"

lemma empty_count_le: "empty_count b \<le> 81"
  unfolding empty_count_def using length_filter_le[of _ all_cells] by (simp add: length_all_cells)

lemma length_filter_mono:
  "(\<And>x. x \<in> set xs \<Longrightarrow> P x \<Longrightarrow> Q x) \<Longrightarrow> length (filter P xs) \<le> length (filter Q xs)"
  by (induction xs) auto

lemma length_filter_strict:
  "(\<And>x. x \<in> set xs \<Longrightarrow> P x \<Longrightarrow> Q x) \<Longrightarrow> y \<in> set xs \<Longrightarrow> Q y \<Longrightarrow> \<not> P y \<Longrightarrow>
   length (filter P xs) < length (filter Q xs)"
proof (induction xs)
  case Nil
  then show ?case by simp
next
  case (Cons x xs)
  have le: "length (filter P xs) \<le> length (filter Q xs)"
    using Cons.prems(1) by (intro length_filter_mono) auto
  show ?case
  proof (cases "y = x")
    case True
    with Cons.prems le show ?thesis by auto
  next
    case False
    with Cons.prems have "y \<in> set xs" by simp
    with Cons have "length (filter P xs) < length (filter Q xs)" by auto
    with Cons.prems(1)[of x] show ?thesis by auto
  qed
qed

lemma empty_count_set_cell:
  assumes "get_cell b r c = Inr 0" "r < 9" "c < 9" "set_cell b r c v = Inr b1" "v \<noteq> 0"
  shows "empty_count b1 < empty_count b"
  unfolding empty_count_def
proof (rule length_filter_strict[where y = "(r, c)"])
  fix x assume "x \<in> set all_cells" "case x of (i, j) \<Rightarrow> get_cell b1 i j = Inr 0"
  then show "case x of (i, j) \<Rightarrow> get_cell b i j = Inr 0"
    using assms by (auto simp: set_cell_get split: if_splits)
next
  show "(r, c) \<in> set all_cells" using assms by (simp add: set_all_cells)
  show "case (r, c) of (i, j) \<Rightarrow> get_cell b i j = Inr 0" using assms by simp
  show "\<not> (case (r, c) of (i, j) \<Rightarrow> get_cell b1 i j = Inr 0)"
    using assms by (simp add: set_cell_get)
qed

text \<open>A call that returns False hands the board back as it received it.\<close>

lemma try_nums_False:
  assumes rec: "\<And>b1 b2. rec b1 = Some (Inr (False, b2)) \<Longrightarrow> b2 = b1"
    and zero: "get_cell b r c = Inr 0"
  shows "try_nums rec b r c nums = Some (Inr (False, b')) \<Longrightarrow> b' = b"
proof (induction nums)
  case Nil
  then show ?case by simp
next
  case (Cons num nums)
  show ?case
  proof (cases "is_valid b r c num")
    case (Inl e)
    with Cons.prems show ?thesis by simp
  next
    case (Inr ok)
    show ?thesis
    proof (cases ok)
      case False
      with Inr Cons show ?thesis by simp
    next
      case True
      from zero obtain b1 where b1: "set_cell b r c num = Inr b1"
        using set_cell_defined by blast
      from zero b1 have undo: "set_cell b1 r c 0 = Inr b" by (rule set_cell_restore)
      show ?thesis
      proof (cases "rec b1")
        case None
        with Cons.prems Inr True b1 show ?thesis by simp
      next
        case (Some res)
        show ?thesis
        proof (cases res)
          case (Inl e)
          with Cons.prems Inr True b1 Some show ?thesis by simp
        next
          case (Inr pr)
          obtain ok2 b2 where pr: "pr = (ok2, b2)" by (cases pr)
          show ?thesis
          proof (cases ok2)
            case True
            with Cons.prems \<open>is_valid b r c num = Inr ok\<close> \<open>ok\<close> b1 Some Inr pr
            show ?thesis by simp
          next
            case False
            with Some Inr pr have "b2 = b1" using rec by simp
            with Cons.prems \<open>is_valid b r c num = Inr ok\<close> \<open>ok\<close> b1 Some Inr pr False undo
            have "try_nums rec b r c nums = Some (Inr (False, b'))" by simp
            then show ?thesis by (rule Cons.IH)
          qed
        qed
      qed
    qed
  qed
qed

lemma solve_sudoku_False:
  "solve_sudoku fuel b = Some (Inr (False, b')) \<Longrightarrow> b' = b"
proof (induction fuel arbitrary: b b')
  case 0
  then show ?case by simp
next
  case (Suc fuel)
  show ?case
  proof (cases "find_empty b")
    case (Inl e)
    with Suc.prems show ?thesis by simp
  next
    case (Inr found)
    show ?thesis
    proof (cases found)
      case None
      with Suc.prems Inr show ?thesis by simp
    next
      case (Some p)
      obtain r c where p: "p = (r, c)" by (cases p)
      from Inr Some p have zero: "get_cell b r c = Inr 0"
        using find_empty_SomeD by blast
      from Suc.prems Inr Some p
      have "try_nums (solve_sudoku fuel) b r c [1..9] = Some (Inr (False, b'))" by simp
      then show ?thesis using Suc.IH zero by (rule try_nums_False[rotated 2])
    qed
  qed
qed


text \<open>One iteration of the loop, for a cell that reads 0 and a recursive call that restores
  the board when it fails.\<close>

definition restoring :: "(board \<Rightarrow> outcome option) \<Rightarrow> bool" where
  "restoring rec \<longleftrightarrow> (\<forall>b1 b2. rec b1 = Some (Inr (False, b2)) \<longrightarrow> b2 = b1)"

lemma restoring_solve_sudoku: "restoring (solve_sudoku fuel)"
  unfolding restoring_def using solve_sudoku_False by blast

lemma try_nums_cases:
  assumes recF: "restoring rec"
    and zero: "get_cell b r c = Inr 0"
  obtains
    (err) e where "is_valid b r c num = Inl e" "try_nums rec b r c (num # nums) = Some (Inl e)"
  | (skip) "is_valid b r c num = Inr False"
      "try_nums rec b r c (num # nums) = try_nums rec b r c nums"
  | (deep) b1 where "is_valid b r c num = Inr True" "set_cell b r c num = Inr b1" "rec b1 = None"
      "try_nums rec b r c (num # nums) = None"
  | (rec_err) b1 e where "is_valid b r c num = Inr True" "set_cell b r c num = Inr b1"
      "rec b1 = Some (Inl e)" "try_nums rec b r c (num # nums) = Some (Inl e)"
  | (hit) b1 b2 where "is_valid b r c num = Inr True" "set_cell b r c num = Inr b1"
      "rec b1 = Some (Inr (True, b2))" "try_nums rec b r c (num # nums) = Some (Inr (True, b2))"
  | (miss) b1 where "is_valid b r c num = Inr True" "set_cell b r c num = Inr b1"
      "rec b1 = Some (Inr (False, b1))"
      "try_nums rec b r c (num # nums) = try_nums rec b r c nums"
proof (cases "is_valid b r c num")
  case (Inl e)
  then show ?thesis using that(1) by simp
next
  case (Inr ok)
  show ?thesis
  proof (cases ok)
    case False
    with Inr show ?thesis using that(2) by simp
  next
    case True
    note valid = Inr[unfolded True[THEN eqTrueI]]
    from zero obtain b1 where b1: "set_cell b r c num = Inr b1"
      using set_cell_defined by blast
    from zero b1 have undo: "set_cell b1 r c 0 = Inr b" by (rule set_cell_restore)
    show ?thesis
    proof (cases "rec b1")
      case None
      with valid b1 show ?thesis using that(3) by simp
    next
      case (Some res)
      show ?thesis
      proof (cases res)
        case (Inl e)
        with valid b1 Some show ?thesis using that(4) by simp
      next
        case (Inr pr)
        obtain ok2 b2 where pr: "pr = (ok2, b2)" by (cases pr)
        show ?thesis
        proof (cases ok2)
          case True
          with valid b1 Some Inr pr show ?thesis using that(5) by simp
        next
          case False
          with Some Inr pr have "b2 = b1" using recF by (simp add: restoring_def)
          with valid b1 Some Inr pr False undo show ?thesis using that(6) by simp
        qed
      qed
    qed
  qed
qed

lemma try_nums_returns:
  assumes rec: "\<And>b1. empty_count b1 < empty_count b \<Longrightarrow> \<exists>res. rec b1 = Some res"
    and recF: "restoring rec"
    and zero: "get_cell b r c = Inr 0" and rc: "r < 9" "c < 9"
  shows "0 \<notin> set nums \<Longrightarrow> \<exists>res. try_nums rec b r c nums = Some res"
proof (induction nums)
  case Nil
  then show ?case by simp
next
  case (Cons num nums)
  then have nz: "num \<noteq> 0" and IH: "\<exists>res. try_nums rec b r c nums = Some res" by auto
  from recF zero show ?case
  proof (cases rule: try_nums_cases[where rec = rec and b = b and r = r and c = c and num = num and nums = nums])
    case (deep b1)
    from zero rc deep(2) nz have "empty_count b1 < empty_count b" by (rule empty_count_set_cell)
    from rec[OF this] deep(3) show ?thesis by simp
  qed (use IH in simp_all)
qed

lemma upto_1_9: "[1..9] = [1, 2, 3, 4, 5, 6, 7, 8, (9::int)]"
  by (simp add: upto.simps)

lemma solve_sudoku_returns:
  "empty_count b < fuel \<Longrightarrow> \<exists>res. solve_sudoku fuel b = Some res"
proof (induction fuel arbitrary: b)
  case 0
  then show ?case by simp
next
  case (Suc fuel)
  show ?case
  proof (cases "find_empty b")
    case (Inl e)
    then show ?thesis by simp
  next
    case (Inr found)
    show ?thesis
    proof (cases found)
      case None
      with Inr show ?thesis by simp
    next
      case (Some p)
      obtain r c where p: "p = (r, c)" by (cases p)
      from Inr Some p have rc: "r < 9" "c < 9" and zero: "get_cell b r c = Inr 0"
        using find_empty_SomeD by blast+
      have "\<exists>res. try_nums (solve_sudoku fuel) b r c [1..9] = Some res"
      proof (rule try_nums_returns[OF _ restoring_solve_sudoku zero rc])
        fix b1 assume "empty_count b1 < empty_count b"
        with Suc.prems have "empty_count b1 < fuel" by simp
        then show "\<exists>res. solve_sudoku fuel b1 = Some res" by (rule Suc.IH)
      next
        show "0 \<notin> set [1..9]" by simp
      qed
      with Inr Some p show ?thesis by simp
    qed
  qed
qed

lemma try_nums_mono:
  assumes rec: "\<And>b1 res. rec b1 = Some res \<Longrightarrow> rec' b1 = Some res"
  shows "try_nums rec b r c nums = Some res \<Longrightarrow> try_nums rec' b r c nums = Some res"
proof (induction nums arbitrary: b)
  case Nil
  then show ?case by simp
next
  case (Cons num nums)
  show ?case
  proof (cases "is_valid b r c num")
    case (Inl e)
    with Cons.prems show ?thesis by auto
  next
    case (Inr ok)
    show ?thesis
    proof (cases ok)
      case False
      with Inr Cons show ?thesis by auto
    next
      case True
      note valid = Inr[unfolded True[THEN eqTrueI]]
      show ?thesis
      proof (cases "set_cell b r c num")
        case (Inl e)
        with Cons.prems valid show ?thesis by auto
      next
        case b1: (Inr b1)
        show ?thesis
        proof (cases "rec b1")
          case None
          with Cons.prems valid b1 show ?thesis by auto
        next
          case (Some res1)
          then have r': "rec' b1 = Some res1" by (rule rec)
          show ?thesis
          proof (cases res1)
            case (Inl e)
            with Cons.prems valid b1 Some r' show ?thesis by auto
          next
            case (Inr pr)
            obtain ok2 b2 where pr: "pr = (ok2, b2)" by (cases pr)
            show ?thesis
            proof (cases ok2)
              case True
              with Cons.prems valid b1 Some r' Inr pr show ?thesis by auto
            next
              case False
              show ?thesis
              proof (cases "set_cell b2 r c 0")
                case (Inl e)
                with Cons.prems valid b1 Some r' Inr pr False show ?thesis by auto
              next
                case b3: (Inr b3)
                with Cons.prems valid b1 Some Inr pr False
                have "try_nums rec b3 r c nums = Some res" by simp
                then have "try_nums rec' b3 r c nums = Some res" by (rule Cons.IH)
                with valid b1 r' Inr pr False b3 show ?thesis by auto
              qed
            qed
          qed
        qed
      qed
    qed
  qed
qed

lemma solve_sudoku_mono:
  "solve_sudoku fuel b = Some res \<Longrightarrow> fuel \<le> fuel' \<Longrightarrow> solve_sudoku fuel' b = Some res"
proof (induction fuel arbitrary: b res fuel')
  case 0
  then show ?case by simp
next
  case (Suc fuel)
  then obtain k where k: "fuel' = Suc k" and le: "fuel \<le> k" by (cases fuel') auto
  show ?case
  proof (cases "find_empty b")
    case (Inl e)
    with Suc.prems k show ?thesis by simp
  next
    case (Inr found)
    show ?thesis
    proof (cases found)
      case None
      with Suc.prems Inr k show ?thesis by simp
    next
      case (Some p)
      obtain r c where p: "p = (r, c)" by (cases p)
      from Suc.prems Inr Some p
      have "try_nums (solve_sudoku fuel) b r c [1..9] = Some res" by simp
      have "try_nums (solve_sudoku k) b r c [1..9] = Some res"
      proof (rule try_nums_mono[OF _ \<open>try_nums (solve_sudoku fuel) b r c [1..9] = Some res\<close>])
        fix b1 res1 assume "solve_sudoku fuel b1 = Some res1"
        then show "solve_sudoku k b1 = Some res1" using le by (rule Suc.IH)
      qed
      with Inr Some p k show ?thesis by simp
    qed
  qed
qed

lemma try_nums_no_error:
  assumes rec: "\<And>b1 e. wf9 b1 \<Longrightarrow> rec b1 \<noteq> Some (Inl e)"
    and recF: "restoring rec"
    and wf: "wf9 b" and rc: "r < 9" "c < 9" and zero: "get_cell b r c = Inr 0"
  shows "try_nums rec b r c nums \<noteq> Some (Inl e)"
proof (induction nums)
  case Nil
  then show ?case by simp
next
  case (Cons num nums)
  from recF zero show ?case
  proof (cases rule: try_nums_cases[where rec = rec and b = b and r = r and c = c and num = num and nums = nums])
    case (err e')
    with wf rc show ?thesis by (simp add: is_valid_wf9)
  next
    case (rec_err b1 e')
    from wf rec_err(2) have "wf9 b1" by (rule set_cell_wf9)
    with rec rec_err(3) show ?thesis by blast
  qed (use Cons in simp_all)
qed

lemma solve_sudoku_no_error: "wf9 b \<Longrightarrow> solve_sudoku fuel b \<noteq> Some (Inl e)"
proof (induction fuel arbitrary: b e)
  case 0
  then show ?case by simp
next
  case (Suc fuel)
  from Suc.prems obtain found where f: "find_empty b = Inr found"
    using find_empty_in_wf9[of b all_cells] by (auto simp: find_empty_def set_all_cells)
  show ?case
  proof (cases found)
    case None
    with f show ?thesis by simp
  next
    case (Some p)
    obtain r c where p: "p = (r, c)" by (cases p)
    from f Some p have rc: "r < 9" "c < 9" and zero: "get_cell b r c = Inr 0"
      using find_empty_SomeD by blast+
    have "try_nums (solve_sudoku fuel) b r c [1..9] \<noteq> Some (Inl e)"
      using Suc.IH restoring_solve_sudoku Suc.prems rc zero by (rule try_nums_no_error)
    with f Some p show ?thesis by simp
  qed
qed

lemma solve_sudoku_total:
  assumes "wf9 b" "empty_count b < fuel"
  shows "\<exists>ok b'. solve_sudoku fuel b = Some (Inr (ok, b'))"
proof -
  from assms(2) obtain res where res: "solve_sudoku fuel b = Some res"
    using solve_sudoku_returns by blast
  with solve_sudoku_no_error[OF assms(1), of fuel] obtain pr where "res = Inr pr"
    by (cases res) auto
  with res show ?thesis by (cases pr) auto
qed


section \<open>Sudoku grids: units, solved grids, completions\<close>

text \<open>
  The 27 units of a grid are its nine rows, nine columns and nine 3x3 boxes, each given
  by the list of its cells. A solved grid is a 9x9 grid in which every unit holds a
  permutation of 1..9. A grid is conflict free when no unit holds the same non-zero
  digit twice.
\<close>

definition cell :: "board \<Rightarrow> nat \<times> nat \<Rightarrow> int" where
  "cell b p = b ! fst p ! snd p"

definition row_cells :: "nat \<Rightarrow> (nat \<times> nat) list" where
  "row_cells i = map (\<lambda>j. (i, j)) [0..<9]"

definition col_cells :: "nat \<Rightarrow> (nat \<times> nat) list" where
  "col_cells j = map (\<lambda>i. (i, j)) [0..<9]"

definition box_cells :: "nat \<Rightarrow> (nat \<times> nat) list" where
  "box_cells k = map (\<lambda>(i, j). (i + 3 * (k div 3), j + 3 * (k mod 3))) box_offsets"

definition units :: "(nat \<times> nat) list list" where
  "units = map row_cells [0..<9] @ map col_cells [0..<9] @ map box_cells [0..<9]"

definition perm_1_9 :: "int list \<Rightarrow> bool" where
  "perm_1_9 xs \<longleftrightarrow> distinct xs \<and> set xs = set [1..9]"

definition solved_grid :: "board \<Rightarrow> bool" where
  "solved_grid b \<longleftrightarrow> wf9 b \<and> list_all (\<lambda>u. perm_1_9 (map (cell b) u)) units"

definition no_dup :: "int list \<Rightarrow> bool" where
  "no_dup xs \<longleftrightarrow> distinct (filter (\<lambda>v. v \<noteq> 0) xs)"

definition conflict_free :: "board \<Rightarrow> bool" where
  "conflict_free b \<longleftrightarrow> list_all (\<lambda>u. no_dup (map (cell b) u)) units"

definition in_range :: "board \<Rightarrow> bool" where
  "in_range b \<longleftrightarrow> list_all (\<lambda>p. 0 \<le> cell b p \<and> cell b p \<le> 9) all_cells"

definition filled :: "board \<Rightarrow> bool" where
  "filled b \<longleftrightarrow> list_all (\<lambda>p. cell b p \<noteq> 0) all_cells"

definition extends :: "board \<Rightarrow> board \<Rightarrow> bool" where
  "extends b s \<longleftrightarrow> list_all (\<lambda>p. cell b p \<noteq> 0 \<longrightarrow> cell s p = cell b p) all_cells"

definition completion :: "board \<Rightarrow> board \<Rightarrow> bool" where
  "completion b s \<longleftrightarrow> wf9 b \<and> solved_grid s \<and> extends b s"

definition same_unit :: "nat \<times> nat \<Rightarrow> nat \<times> nat \<Rightarrow> bool" where
  "same_unit p q \<longleftrightarrow>
     fst p = fst q \<or> snd p = snd q \<or> (fst p div 3 = fst q div 3 \<and> snd p div 3 = snd q div 3)"

definition sample_solution :: board where
  "sample_solution =
    [[5, 3, 4, 6, 7, 8, 9, 1, 2],
     [6, 7, 2, 1, 9, 5, 3, 4, 8],
     [1, 9, 8, 3, 4, 2, 5, 6, 7],
     [8, 5, 9, 7, 6, 1, 4, 2, 3],
     [4, 2, 6, 8, 5, 3, 7, 9, 1],
     [7, 1, 3, 9, 2, 4, 8, 5, 6],
     [9, 6, 1, 5, 3, 7, 2, 8, 4],
     [2, 8, 7, 4, 1, 9, 6, 3, 5],
     [3, 4, 5, 2, 8, 6, 1, 7, 9]]"

lemma units_shape:
  "list_all (\<lambda>u. distinct u \<and> length u = 9 \<and> list_all (\<lambda>p. fst p < 9 \<and> snd p < 9) u) units"
  by code_simp

lemma units_same_unit:
  "list_all (\<lambda>u. list_all (\<lambda>p. list_all (\<lambda>q. same_unit p q) u) u) units"
  by code_simp

lemma row_cells_unit: "i < 9 \<Longrightarrow> row_cells i \<in> set units"
  by (simp add: units_def)

lemma col_cells_unit: "j < 9 \<Longrightarrow> col_cells j \<in> set units"
  by (simp add: units_def)

lemma box_cells_unit: "k < 9 \<Longrightarrow> box_cells k \<in> set units"
  by (simp add: units_def)

lemma in_row_cells: "j < 9 \<Longrightarrow> (i, j) \<in> set (row_cells i)"
  by (simp add: row_cells_def)

lemma in_col_cells: "i < 9 \<Longrightarrow> (i, j) \<in> set (col_cells j)"
  by (simp add: col_cells_def)

lemma in_box_cells:
  assumes "i < 9" "j < 9"
  shows "(i, j) \<in> set (box_cells (3 * (i div 3) + j div 3))"
proof -
  have "(i mod 3, j mod 3) \<in> set box_offsets" by (simp add: set_box_offsets)
  moreover have "(3 * (i div 3) + j div 3) div 3 = i div 3" "(3 * (i div 3) + j div 3) mod 3 = j div 3"
    using assms by auto
  ultimately show ?thesis
    unfolding box_cells_def by (force simp: image_iff)
qed

lemma filled_iff: "filled b \<longleftrightarrow> (\<forall>i<9. \<forall>j<9. b ! i ! j \<noteq> 0)"
  by (auto simp: filled_def list_all_iff set_all_cells cell_def)

lemma in_range_iff: "in_range b \<longleftrightarrow> (\<forall>i<9. \<forall>j<9. 0 \<le> b ! i ! j \<and> b ! i ! j \<le> 9)"
  by (auto simp: in_range_def list_all_iff set_all_cells cell_def)

lemma extends_iff:
  "extends b s \<longleftrightarrow> (\<forall>i<9. \<forall>j<9. b ! i ! j \<noteq> 0 \<longrightarrow> s ! i ! j = b ! i ! j)"
  by (auto simp: extends_def list_all_iff set_all_cells cell_def)

lemma solved_grid_cell:
  assumes "solved_grid s" "i < 9" "j < 9"
  shows "1 \<le> s ! i ! j \<and> s ! i ! j \<le> 9"
proof -
  from assms(1,2) have "perm_1_9 (map (cell s) (row_cells i))"
    using row_cells_unit[of i] by (simp add: solved_grid_def list_all_iff)
  then have "set (map (cell s) (row_cells i)) = {1..9}" by (simp add: perm_1_9_def)
  moreover have "cell s (i, j) \<in> set (map (cell s) (row_cells i))"
    using in_row_cells[OF assms(3), of i] by simp
  ultimately show ?thesis by (simp add: cell_def)
qed

lemma solved_grid_filled: "solved_grid s \<Longrightarrow> filled s"
  using solved_grid_cell by (fastforce simp: filled_iff)

lemma find_empty_in_full:
  "\<forall>q\<in>set ps. \<exists>v. get_cell b (fst q) (snd q) = Inr v \<and> v \<noteq> 0 \<Longrightarrow> find_empty_in b ps = Inr None"
  by (induction b ps rule: find_empty_in.induct) auto

lemma find_empty_filled:
  assumes "wf9 b" "filled b"
  shows "find_empty b = Inr None"
  unfolding find_empty_def
proof (rule find_empty_in_full, rule ballI)
  fix q assume "q \<in> set all_cells"
  then have q: "fst q < 9" "snd q < 9" by (auto simp: set_all_cells)
  with assms show "\<exists>v. get_cell b (fst q) (snd q) = Inr v \<and> v \<noteq> 0"
    by (simp add: wf9_get filled_iff)
qed

lemma wf9_sample_solution: "wf9 sample_solution"
  by (simp add: wf9_def sample_solution_def)

lemma solved_sample_solution: "solved_grid sample_solution"
  by code_simp

lemma wf9_mock: "wf9 mock_extract_sudoku"
  by (simp add: wf9_def mock_extract_sudoku_def)

text \<open>
  C5. Calling the solver on a grid that is already solved (no empty cell, every row, column
  and box a permutation of 1..9) returns True and leaves the grid as it is.
\<close>

theorem solve_sudoku_solved_grid:
  assumes "solved_grid b" and "0 < fuel"
  shows "solve_sudoku fuel b = Some (Inr (True, b))"
proof -
  from assms(1) have "wf9 b" "filled b"
    by (simp_all add: solved_grid_def solved_grid_filled)
  then have "find_empty b = Inr None" by (rule find_empty_filled)
  moreover from assms(2) obtain k where "fuel = Suc k" by (cases fuel) auto
  ultimately show ?thesis by simp
qed

theorem solve_sudoku_solved_grid_witness:
  "solved_grid sample_solution \<and> (0::nat) < 1 \<and>
   solve_sudoku 1 sample_solution = Some (Inr (True, sample_solution))"
  using solve_sudoku_solved_grid[OF solved_sample_solution, of 1] solved_sample_solution
  by simp

text \<open>
  C9. The solver terminates on every 9x9 grid: with a depth bound above 81 it returns a
  boolean and a board, never an exception and never the exhausted bound. The
  recursion is well founded because the grid has at most 81 empty cells and every
  recursive call is made after a non-zero value has been written into the empty cell that
  \<open>find_empty\<close> returned, which leaves strictly fewer empty cells.
\<close>

theorem solve_sudoku_terminates:
  assumes "wf9 b" and "81 < fuel"
  shows "(\<exists>ok b'. solve_sudoku fuel b = Some (Inr (ok, b'))) \<and>
         empty_count b \<le> 81 \<and>
         (\<forall>r c num b1. find_empty b = Inr (Some (r, c)) \<and> num \<in> set [1..9] \<and>
              set_cell b r c num = Inr b1 \<longrightarrow> empty_count b1 < empty_count b)"
proof (intro conjI allI impI)
  from assms(2) have "empty_count b < fuel"
    using empty_count_le[of b] by simp
  with assms(1) show "\<exists>ok b'. solve_sudoku fuel b = Some (Inr (ok, b'))"
    by (rule solve_sudoku_total)
next
  show "empty_count b \<le> 81" by (rule empty_count_le)
next
  fix r c num b1
  assume h: "find_empty b = Inr (Some (r, c)) \<and> num \<in> set [1..9] \<and> set_cell b r c num = Inr b1"
  then have "r < 9" "c < 9" "get_cell b r c = Inr 0"
    using find_empty_SomeD by blast+
  moreover from h have "num \<noteq> 0" by auto
  ultimately show "empty_count b1 < empty_count b"
    using h empty_count_set_cell by blast
qed

lemma find_empty_mock: "find_empty mock_extract_sudoku = Inr (Some (0, 2))"
  by code_simp

lemma set_cell_mock:
  "set_cell mock_extract_sudoku 0 2 1 = Inr (mock_extract_sudoku[0 := [5, 3, 1, 0, 7, 0, 0, 0, 0]])"
  by code_simp

theorem solve_sudoku_terminates_witness:
  "wf9 mock_extract_sudoku \<and> (81::nat) < 82 \<and>
   (\<exists>ok b'. solve_sudoku 82 mock_extract_sudoku = Some (Inr (ok, b'))) \<and>
   find_empty mock_extract_sudoku = Inr (Some (0, 2)) \<and> (1::int) \<in> set [1..9] \<and>
   set_cell mock_extract_sudoku 0 2 1 = Inr (mock_extract_sudoku[0 := [5, 3, 1, 0, 7, 0, 0, 0, 0]]) \<and>
   empty_count (mock_extract_sudoku[0 := [5, 3, 1, 0, 7, 0, 0, 0, 0]]) < empty_count mock_extract_sudoku"
proof -
  have less: "(81::nat) < 82" by simp
  note t = solve_sudoku_terminates[OF wf9_mock less]
  from t have ret: "\<exists>ok b'. solve_sudoku 82 mock_extract_sudoku = Some (Inr (ok, b'))"
    by (rule conjunct1)
  have one: "(1::int) \<in> set [1..9]" by simp
  from find_empty_mock one set_cell_mock t[THEN conjunct2, THEN conjunct2]
  have "empty_count (mock_extract_sudoku[0 := [5, 3, 1, 0, 7, 0, 0, 0, 0]])
      < empty_count mock_extract_sudoku"
    by blast
  with wf9_mock less ret find_empty_mock one set_cell_mock show ?thesis by blast
qed

end
